theory Spec2Isabelle
  imports
    Main
    "HOL-Library.Char_ord"
    "HOL-Library.List_Lexorder"
    "HOL-Library.Multiset"
begin

section \<open>The user-management view of the web portal and the directory group lookup\<close>

text \<open>
  Two files are embedded here: the React component \<open>UserView\<close>
  (\<^verbatim>\<open>webportal/src/app/user/fabric/userView/index.jsx\<close>) and the directory client
  with \<open>initConfig\<close> and \<open>getUserGroupList\<close>.  The component imports the classes
  \<open>Filter\<close>, \<open>Ordering\<close> and \<open>Pagination\<close> from sibling modules whose text is
  not part of the sources at hand; their \<open>apply\<close> methods are modelled from the
  specification and marked as such.
\<close>

subsection \<open>Users\<close>

text \<open>
  Modelled from the spec: the sources declare no type of users, and read the field
  \<open>username\<close> alone. A user is an opaque record that the view only reads:
  \<open>username\<close> (the unique key), \<open>admin\<close>, \<open>virtualClusters\<close> (the names of the
  virtual clusters of the user) and \<open>extension\<close> (a free-form map).
\<close>

record user =
  username :: string
  admin :: bool
  virtualClusters :: "string list"
  extension :: "(string \<times> string) list"

subsection \<open>Pagination\<close>

text \<open>
  Modelled from the spec: the class \<open>Pagination\<close> (module \<^verbatim>\<open>./Pagination\<close>) is
  missing. It holds \<open>itemsPerPage\<close>, a positive integer, and \<open>currentPage\<close>, a
  zero-based index. The component builds one with \<^verbatim>\<open>new Pagination(itemsPerPage, 0)\<close>,
  so the constructor takes the page size first and the page index second.
\<close>

record Pagination =
  itemsPerPage :: nat
  currentPage :: nat

definition new_Pagination :: "nat \<Rightarrow> nat \<Rightarrow> Pagination" where
  "new_Pagination n p = \<lparr>itemsPerPage = n, currentPage = p\<rparr>"

text \<open>
  Modelled from the spec: \<open>Pagination.apply\<close> is missing. It returns the slice
  \<open>[currentPage * itemsPerPage, min(length, (currentPage + 1) * itemsPerPage))\<close> of its
  argument: the elements at the indices from the first bound up to, and without,
  the second, in order.
\<close>

definition Pagination_apply :: "Pagination \<Rightarrow> 'a list \<Rightarrow> 'a list" where
  "Pagination_apply pg users =
     (let start = currentPage pg * itemsPerPage pg;
          stop = min (length users) ((currentPage pg + 1) * itemsPerPage pg)
      in map (\<lambda>i. users ! i) [start ..< stop])"

subsection \<open>Filter\<close>

text \<open>
  Modelled from the spec: the class \<open>Filter\<close> (module \<^verbatim>\<open>./Filter\<close>) is missing. It is
  a set of named predicate fields, each optional, where an absent field imposes no
  constraint: \<open>username\<close> (case-insensitive substring match), \<open>admin\<close> (tri-state:
  any, true, false) and \<open>virtualCluster\<close> (a name, tested for membership).
\<close>

record Filter =
  filter_username :: "string option"
  filter_admin :: "bool option"
  filter_virtualCluster :: "string option"

definition empty_Filter :: Filter where
  "empty_Filter = \<lparr>filter_username = None, filter_admin = None, filter_virtualCluster = None\<rparr>"

text \<open>
  Modelled from the spec: the match of a filter. A string matches when it contains
  the text of the filter, both in lower case (of the letters \<open>A\<close> to \<open>Z\<close>).
\<close>

definition toLowerCase_char :: "char \<Rightarrow> char" where
  "toLowerCase_char c =
     (if CHR ''A'' \<le> c \<and> c \<le> CHR ''Z'' then char_of (of_char c + (32 :: nat)) else c)"

definition toLowerCase :: "string \<Rightarrow> string" where
  "toLowerCase s = map toLowerCase_char s"

primrec startsWith :: "string \<Rightarrow> string \<Rightarrow> bool" where
  "startsWith s [] = True"
| "startsWith s (c # cs) = (case s of [] \<Rightarrow> False | d # ds \<Rightarrow> c = d \<and> startsWith ds cs)"

primrec includes_str :: "string \<Rightarrow> string \<Rightarrow> bool" where
  "includes_str [] sub = startsWith [] sub"
| "includes_str (c # cs) sub = (startsWith (c # cs) sub \<or> includes_str cs sub)"

definition Filter_matches :: "Filter \<Rightarrow> user \<Rightarrow> bool" where
  "Filter_matches f u =
     ((case filter_username f of
         None \<Rightarrow> True
       | Some s \<Rightarrow> includes_str (toLowerCase (username u)) (toLowerCase s)) \<and>
      (case filter_admin f of
         None \<Rightarrow> True
       | Some b \<Rightarrow> admin u = b) \<and>
      (case filter_virtualCluster f of
         None \<Rightarrow> True
       | Some vc \<Rightarrow> vc \<in> set (virtualClusters u)))"

text \<open>
  Modelled from the spec: \<open>Filter.apply\<close> is missing. It returns the subsequence of
  its argument, relative order kept, of the users that every configured predicate
  field matches.
\<close>

definition Filter_apply :: "Filter \<Rightarrow> user list \<Rightarrow> user list" where
  "Filter_apply f users = filter (Filter_matches f) users"

subsection \<open>Ordering\<close>

text \<open>
  Modelled from the spec: the class \<open>Ordering\<close> (module \<^verbatim>\<open>./Ordering\<close>) is missing.
  It holds a sort key, an enumeration over user fields (the user name compared
  lexicographically, the admin flag in the order of the booleans, the number of
  virtual clusters), and a direction. With no key configured, \<open>apply\<close> is the
  identity. Otherwise it returns the users sorted by the key, and users with equal
  keys stay in their original relative order, in both directions.
\<close>

datatype sort_key_field = ByUsername | ByAdmin | ByVirtualClusterCount

record Ordering =
  ordering_field :: "sort_key_field option"
  descending :: bool

definition new_Ordering :: Ordering where
  "new_Ordering = \<lparr>ordering_field = None, descending = False\<rparr>"

text \<open>
  Modelled from the spec: \<open>Ordering.apply\<close> is missing. The sort is stable
  (\<open>sort_key\<close> is an insertion sort that keeps equal keys in order); the descending
  order is the ascending order of the reversed list, reversed, which keeps equal
  keys in their original order as well.
\<close>

definition stable_sort_by :: "sort_key_field \<Rightarrow> user list \<Rightarrow> user list" where
  "stable_sort_by k users =
     (case k of
        ByUsername \<Rightarrow> sort_key username users
      | ByAdmin \<Rightarrow> sort_key admin users
      | ByVirtualClusterCount \<Rightarrow> sort_key (\<lambda>u. length (virtualClusters u)) users)"

definition Ordering_apply :: "Ordering \<Rightarrow> user list \<Rightarrow> user list" where
  "Ordering_apply ord users =
     (case ordering_field ord of
        None \<Rightarrow> users
      | Some k \<Rightarrow>
          if descending ord then rev (stable_sort_by k (rev users))
          else stable_sort_by k users)"

subsection \<open>The state of the view\<close>

text \<open>
  The cells of \<open>useState\<close> that the filter, order, page and selection pipeline reads
  and writes. \<open>filteredUsers\<close> starts as \<open>null\<close> and holds a list once the debounced
  computation has run; the cell \<open>filter\<close> is named \<open>currentFilter\<close> here.
\<close>

record view_state =
  allUsers :: "user list"
  currentFilter :: Filter
  filteredUsers :: "user list option"
  pagination :: Pagination
  selectedUsers :: "user list"
  allSelected :: bool
  ordering :: Ordering

text \<open>
  The body of the debounced \<open>applyFilter\<close>:
  \<^verbatim>\<open>setFilteredUsers(filter.apply(allUsers || []))\<close>. It is called from an effect on
  \<open>allUsers\<close> and \<open>filter\<close>, so when it fires it holds the values of these cells.
\<close>

definition setFilteredUsers :: "user list \<Rightarrow> view_state \<Rightarrow> view_state" where
  "setFilteredUsers users vs = vs\<lparr>filteredUsers := Some users\<rparr>"

definition applyFilter :: "view_state \<Rightarrow> view_state" where
  "applyFilter vs = setFilteredUsers (Filter_apply (currentFilter vs) (allUsers vs)) vs"

text \<open>
  The effect on \<open>filteredUsers\<close>:
  \<^verbatim>\<open>setPagination(new Pagination(pagination.itemsPerPage, 0))\<close>.
\<close>

definition paginationEffect :: "view_state \<Rightarrow> view_state" where
  "paginationEffect vs = vs\<lparr>pagination := new_Pagination (itemsPerPage (pagination vs)) 0\<rparr>"

text \<open>
  A change of the filtered list: the cell is set, the component renders, and the
  effects that depend on the cell run, here the pagination effect alone.
\<close>

definition filteredUsersChange :: "user list \<Rightarrow> view_state \<Rightarrow> view_state" where
  "filteredUsersChange users vs = paginationEffect (setFilteredUsers users vs)"

text \<open>
  \<^verbatim>\<open>getSelectedUsers\<close>: with "all selected" the current page of the ordered filtered
  users, where \<^verbatim>\<open>filteredUsers || []\<close> reads \<open>null\<close> as the empty list; otherwise the
  tracked selection.
\<close>

definition getSelectedUsers :: "view_state \<Rightarrow> user list" where
  "getSelectedUsers vs =
     (if allSelected vs then
        Pagination_apply (pagination vs)
          (Ordering_apply (ordering vs)
             (case filteredUsers vs of None \<Rightarrow> [] | Some users \<Rightarrow> users))
      else selectedUsers vs)"

subsection \<open>Batch removal\<close>

text \<open>
  A JavaScript value as the summary step observes it: whether it is an instance of
  \<open>Error\<close>, and the text that \<^verbatim>\<open>String(value)\<close> yields.
\<close>

datatype jsval = ErrorInstance string | NonError string

fun instanceof_Error :: "jsval \<Rightarrow> bool" where
  "instanceof_Error (ErrorInstance text) = True"
| "instanceof_Error (NonError text) = False"

fun String_of :: "jsval \<Rightarrow> string" where
  "String_of (ErrorInstance text) = text"
| "String_of (NonError text) = text"

text \<open>
  A promise is what becomes of it: fulfilled with a value, rejected with a reason,
  or never settled. \<^verbatim>\<open>p.catch(h)\<close> is fulfilled with \<open>h reason\<close> when \<open>p\<close> is rejected
  and follows \<open>p\<close> otherwise. \<^verbatim>\<open>Promise.all\<close> is rejected as soon as one of its
  promises is, whatever the others do, is fulfilled with the values in the order of
  its argument when all are fulfilled, and stays pending otherwise; of several
  rejections this model takes the first in the order of the list.
\<close>

datatype ('v, 'e) promise = Fulfilled 'v | Rejected 'e | Pending

definition promise_catch :: "('e \<Rightarrow> 'v) \<Rightarrow> ('v, 'e) promise \<Rightarrow> ('v, 'r) promise" where
  "promise_catch onRejected p =
     (case p of
        Fulfilled v \<Rightarrow> Fulfilled v
      | Rejected reason \<Rightarrow> Fulfilled (onRejected reason)
      | Pending \<Rightarrow> Pending)"

fun Promise_all :: "('v, 'e) promise list \<Rightarrow> ('v list, 'e) promise" where
  "Promise_all [] = Fulfilled []"
| "Promise_all (p # ps) =
     (case p of
        Rejected reason \<Rightarrow> Rejected reason
      | Fulfilled v \<Rightarrow>
          (case Promise_all ps of
             Fulfilled vs \<Rightarrow> Fulfilled (v # vs)
           | Rejected reason \<Rightarrow> Rejected reason
           | Pending \<Rightarrow> Pending)
      | Pending \<Rightarrow>
          (case Promise_all ps of
             Rejected reason \<Rightarrow> Rejected reason
           | _ \<Rightarrow> Pending))"

text \<open>The decimal numeral of a length, as a template literal prints it.\<close>

fun toString_nat :: "nat \<Rightarrow> string" where
  "toString_nat n =
     (if n < 10 then [''0123456789'' ! n]
      else toString_nat (n div 10) @ [''0123456789'' ! (n mod 10)])"

declare toString_nat.simps [simp del]

text \<open>
  The promises of \<open>removeUsers\<close>:
  \<^verbatim>\<open>selected.map((user) => removeUserRequest(user.username).catch((err) => err))\<close>.
  \<open>removeUserRequest\<close> (module \<^verbatim>\<open>../conn\<close>, missing) is a parameter: it gives, for
  a user name, the promise of the remove request for it.
\<close>

definition removeRequestPromises ::
  "(string \<Rightarrow> (jsval, jsval) promise) \<Rightarrow> user list \<Rightarrow> (jsval, 'r) promise list"
where
  "removeRequestPromises removeUserRequest selected =
     map (\<lambda>user. promise_catch (\<lambda>err. err) (removeUserRequest (username user))) selected"

text \<open>The message that the callback of \<^verbatim>\<open>Promise.all(...).then\<close> builds from the results.\<close>

definition removeSummary :: "user list \<Rightarrow> jsval list \<Rightarrow> string" where
  "removeSummary selected results =
     (let errors = filter instanceof_Error results;
          message = ''Remove '' @ (if length selected = 1 then ''user'' else ''users'') @ '' ''
      in if length errors = 0 then message @ ''successfully.''
         else foldl (\<lambda>message error. message @ [CHR 0x0A] @ String_of error)
                (message @ ''with '' @ toString_nat (length errors) @ '' failed.'') errors)"

text \<open>
  What \<open>removeUsers\<close> does, as the list of its effects: the text of the confirmation
  box, the user names that \<open>removeUserRequest\<close> was called with, in the order of the
  calls, whether the loading mask is left shown, the text of the summary box if it
  is shown, and the number of calls of \<open>refreshAllUsers\<close>.
\<close>

record removal_effects =
  confirmationText :: string
  removeRequests :: "string list"
  loadingShown :: bool
  summaryMessage :: "string option"
  refreshes :: nat

text \<open>
  \<open>removeUsers\<close>. \<open>confirmed\<close> is the value that the confirmation box resolves with,
  and \<open>dismissed\<close> tells whether the summary box is dismissed, which resolves the
  promise that \<open>refreshAllUsers\<close> waits for. The callback of \<^verbatim>\<open>Promise.all(...).then\<close>
  runs when that promise is fulfilled, and not otherwise.
\<close>

definition removeUsers ::
  "(string \<Rightarrow> (jsval, jsval) promise) \<Rightarrow> bool \<Rightarrow> bool \<Rightarrow> view_state \<Rightarrow> removal_effects"
where
  "removeUsers removeUserRequest confirmed dismissed vs =
     (let selected = getSelectedUsers vs;
          question = ''Are you sure to remove ''
            @ (if length selected = 1 then ''the user'' else ''these users'') @ ''?''
      in if confirmed then
           (case (Promise_all (removeRequestPromises removeUserRequest selected)
                    :: (jsval list, jsval) promise) of
              Fulfilled results \<Rightarrow>
                \<lparr>confirmationText = question,
                 removeRequests = map username selected,
                 loadingShown = False,
                 summaryMessage = Some (removeSummary selected results),
                 refreshes = (if dismissed then 1 else 0)\<rparr>
            | _ \<Rightarrow>
                \<lparr>confirmationText = question,
                 removeRequests = map username selected,
                 loadingShown = True,
                 summaryMessage = None,
                 refreshes = 0\<rparr>)
         else
           \<lparr>confirmationText = question,
            removeRequests = [],
            loadingShown = False,
            summaryMessage = None,
            refreshes = 0\<rparr>)"

text \<open>
  What the specification says of the summary: for \<open>n\<close> selected users and the texts
  of the failures, \<open>Remove {user|users} successfully.\<close> when there is no failure,
  and \<open>Remove {user|users} with N failed.\<close> followed by each text on a line of its
  own otherwise.
\<close>

definition spec_summary :: "nat \<Rightarrow> string list \<Rightarrow> string" where
  "spec_summary n failures =
     ''Remove '' @ (if n = 1 then ''user'' else ''users'')
       @ (if failures = [] then '' successfully.''
          else '' with '' @ toString_nat (length failures) @ '' failed.''
               @ concat (map (\<lambda>text. CHR 0x0A # text) failures))"

text \<open>
  The outcome of a request that the batch collects, and the reasons of the requests
  that failed, that is of the promises that are rejected.
\<close>

fun collected :: "('v, 'v) promise \<Rightarrow> 'v option" where
  "collected (Fulfilled v) = Some v"
| "collected (Rejected reason) = Some reason"
| "collected Pending = None"

fun rejection :: "('v, 'e) promise \<Rightarrow> 'e list" where
  "rejection (Rejected reason) = [reason]"
| "rejection (Fulfilled v) = []"
| "rejection Pending = []"

definition failed_requests :: "(string \<Rightarrow> (jsval, jsval) promise) \<Rightarrow> user list \<Rightarrow> jsval list" where
  "failed_requests removeUserRequest selected =
     concat (map (\<lambda>user. rejection (removeUserRequest (username user))) selected)"

text \<open>A rejection with a value that is not an \<open>Error\<close>, read as a fulfilment with it.\<close>

fun as_fulfilled :: "(jsval, jsval) promise \<Rightarrow> (jsval, jsval) promise" where
  "as_fulfilled (Rejected (NonError text)) = Fulfilled (NonError text)"
| "as_fulfilled p = p"

text \<open>
  A rejection with a value that is not an \<open>Error\<close>, read as a success: a fulfilment
  with the value \<open>ok\<close> of a request that went well.
\<close>

fun as_success :: "jsval \<Rightarrow> (jsval, jsval) promise \<Rightarrow> (jsval, jsval) promise" where
  "as_success ok (Rejected (NonError text)) = Fulfilled ok"
| "as_success ok p = p"

subsection \<open>The directory group lookup\<close>

text \<open>
  \<^verbatim>\<open>initConfig(msGraphUrl, accessToken)\<close> builds the configuration of the lookup.
\<close>

record Config =
  msGraphAPI :: string
  Authorization :: string

definition initConfig :: "string \<Rightarrow> string \<Rightarrow> Config" where
  "initConfig msGraphUrl accessToken =
     \<lparr>msGraphAPI = msGraphUrl @ ''v1.0/me/memberOf'',
      Authorization = ''Bearer '' @ accessToken\<rparr>"

text \<open>
  A request of \<^verbatim>\<open>axios.get\<close> is its URL and its headers. A response body is a JSON
  object with the array \<open>value\<close> of group records, each with an optional
  \<open>displayName\<close>, and the optional string \<open>@odata.nextLink\<close>; bodies of another
  shape are outside this type.
\<close>

record request =
  request_url :: string
  request_headers :: "(string \<times> string) list"

record group_item =
  displayName :: "string option"

record response_data =
  odata_value :: "group_item list"
  odata_nextLink :: "string option"

text \<open>
  The directory service is the environment of the lookup: \<^verbatim>\<open>await axios.get(...)\<close>
  takes the state \<open>'w\<close> of the world and the request, and yields the response body
  (\<open>Inr\<close>) or the value the call rejects with (\<open>Inl\<close>), and the next state of the
  world.
\<close>

type_synonym ('w, 'e) http_get = "'w \<Rightarrow> request \<Rightarrow> ('e + response_data) \<times> 'w"

definition get_request :: "Config \<Rightarrow> string \<Rightarrow> request" where
  "get_request config requestUrl =
     \<lparr>request_url = requestUrl,
      request_headers =
        [(''Accept'', ''application/json''), (''Authorization'', Authorization config)]\<rparr>"

text \<open>
  The loop \<^verbatim>\<open>while (true)\<close> of \<open>getUserGroupList\<close>, with the variables \<open>requestUrl\<close>
  and \<open>responseData\<close>. It has no bound on the number of pages: when every response
  has a next link it never returns, which is the value \<open>None\<close>. A rejected request
  leaves the loop with the value thrown.
\<close>

partial_function (option) fetchPages ::
  "('w, 'e) http_get \<Rightarrow> Config \<Rightarrow> string \<Rightarrow> group_item list list \<Rightarrow> 'w
     \<Rightarrow> (('e + group_item list list) \<times> 'w) option"
where
  "fetchPages axios_get config requestUrl responseData w =
     (case axios_get w (get_request config requestUrl) of
        (Inl error, w') \<Rightarrow> Some (Inl error, w')
      | (Inr data, w') \<Rightarrow>
          (case odata_nextLink data of
             Some nextLink \<Rightarrow>
               fetchPages axios_get config nextLink (responseData @ [odata_value data]) w'
           | None \<Rightarrow> Some (Inr (responseData @ [odata_value data]), w')))"

text \<open>
  The two loops over \<open>responseData\<close>: a display name is pushed when it is truthy,
  that is present and not the empty string.
\<close>

fun pushDisplayNames :: "string list \<Rightarrow> group_item list \<Rightarrow> string list" where
  "pushDisplayNames groupList [] = groupList"
| "pushDisplayNames groupList (groupItem # dataBlock) =
     (case displayName groupItem of
        None \<Rightarrow> pushDisplayNames groupList dataBlock
      | Some name \<Rightarrow>
          if name \<noteq> [] then pushDisplayNames (groupList @ [name]) dataBlock
          else pushDisplayNames groupList dataBlock)"

fun collectGroups :: "string list \<Rightarrow> group_item list list \<Rightarrow> string list" where
  "collectGroups groupList [] = groupList"
| "collectGroups groupList (dataBlock # responseData) =
     collectGroups (pushDisplayNames groupList dataBlock) responseData"

text \<open>
  \<open>getUserGroupList(username, config)\<close>, which does not read its first parameter
  (written \<open>username'\<close>, the name being the field of a user); the handler \<^verbatim>\<open>catch (error) { throw error; }\<close>
  throws what it caught. The call of \<^verbatim>\<open>console.log\<close> is left out.
\<close>

definition getUserGroupList ::
  "('w, 'e) http_get \<Rightarrow> string \<Rightarrow> Config \<Rightarrow> 'w \<Rightarrow> (('e + string list) \<times> 'w) option"
where
  "getUserGroupList axios_get username' config w =
     (case fetchPages axios_get config (msGraphAPI config) [] w of
        None \<Rightarrow> None
      | Some (Inl error, w') \<Rightarrow> Some (Inl error, w')
      | Some (Inr responseData, w') \<Rightarrow> Some (Inr (collectGroups [] responseData), w'))"

text \<open>
  What the specification says of the result: the display names of the group
  records of a page, in order, without the records whose display name is absent or
  falsy.
\<close>

definition spec_displayNames :: "response_data \<Rightarrow> string list" where
  "spec_displayNames page =
     map (\<lambda>g. the (displayName g))
       (filter (\<lambda>g. displayName g \<noteq> None \<and> displayName g \<noteq> Some []) (odata_value page))"

text \<open>
  The runs of the service that the specification speaks of. \<open>page_chain\<close>: from the
  world \<open>w\<close> the request of \<open>url\<close> and then of each next link succeed with \<open>pages\<close>,
  the last of which is the first without a next link, and leave the world \<open>w'\<close>.
  \<open>failing_chain\<close>: they succeed with \<open>pages\<close>, each with a next link, and the
  request after them is rejected with \<open>error\<close>.
\<close>

inductive page_chain ::
  "('w, 'e) http_get \<Rightarrow> Config \<Rightarrow> string \<Rightarrow> 'w \<Rightarrow> response_data list \<Rightarrow> 'w \<Rightarrow> bool"
  for axios_get :: "('w, 'e) http_get" and config :: Config
where
  last_page:
    "axios_get w (get_request config url) = (Inr data, w') \<Longrightarrow> odata_nextLink data = None
     \<Longrightarrow> page_chain axios_get config url w [data] w'"
| next_page:
    "axios_get w (get_request config url) = (Inr data, w') \<Longrightarrow> odata_nextLink data = Some nextLink
     \<Longrightarrow> page_chain axios_get config nextLink w' pages w''
     \<Longrightarrow> page_chain axios_get config url w (data # pages) w''"

inductive failing_chain ::
  "('w, 'e) http_get \<Rightarrow> Config \<Rightarrow> string \<Rightarrow> 'w \<Rightarrow> response_data list \<Rightarrow> 'e \<Rightarrow> 'w \<Rightarrow> bool"
  for axios_get :: "('w, 'e) http_get" and config :: Config
where
  rejected:
    "axios_get w (get_request config url) = (Inl error, w')
     \<Longrightarrow> failing_chain axios_get config url w [] error w'"
| rejected_later:
    "axios_get w (get_request config url) = (Inr data, w') \<Longrightarrow> odata_nextLink data = Some nextLink
     \<Longrightarrow> failing_chain axios_get config nextLink w' pages error w''
     \<Longrightarrow> failing_chain axios_get config url w (data # pages) error w''"

text \<open>
  An observer of the requests: the service \<open>axios_get\<close> with a log of the requests
  it has received, in the order of their arrival.
\<close>

definition logging :: "('w, 'e) http_get \<Rightarrow> ('w \<times> request list, 'e) http_get" where
  "logging axios_get = (\<lambda>(w, log) req.
     case axios_get w req of (response, w') \<Rightarrow> (response, (w', log @ [req])))"

text \<open>The URLs requested along a chain: the start, then the next link of each page.\<close>

definition requested_urls :: "string \<Rightarrow> response_data list \<Rightarrow> string list" where
  "requested_urls url pages =
     url # map (\<lambda>page. the (odata_nextLink page))
             (filter (\<lambda>page. odata_nextLink page \<noteq> None) pages)"

subsection \<open>Sample data\<close>

definition alice :: user where
  "alice = \<lparr>username = ''alice'', admin = True, virtualClusters = [''default'', ''vc1''],
             extension = []\<rparr>"

definition bob :: user where
  "bob = \<lparr>username = ''Bob'', admin = False, virtualClusters = [''default''], extension = []\<rparr>"

definition carol :: user where
  "carol = \<lparr>username = ''carol'', admin = True, virtualClusters = [''vc1''], extension = []\<rparr>"

definition sample_view :: view_state where
  "sample_view =
     \<lparr>allUsers = [alice, bob, carol],
      currentFilter = \<lparr>filter_username = None, filter_admin = Some True,
                       filter_virtualCluster = None\<rparr>,
      filteredUsers = None,
      pagination = \<lparr>itemsPerPage = 20, currentPage = 3\<rparr>,
      selectedUsers = [bob],
      allSelected = True,
      ordering = \<lparr>ordering_field = Some ByUsername, descending = True\<rparr>\<rparr>"

text \<open>
  A directory with two pages of group records, and one whose second page is refused.
  The world is the number of requests served.
\<close>

definition sample_config :: Config where
  "sample_config = initConfig ''https://graph/'' ''token''"

definition first_page :: response_data where
  "first_page =
     \<lparr>odata_value = [\<lparr>displayName = Some ''admins''\<rparr>, \<lparr>displayName = None\<rparr>],
      odata_nextLink = Some ''https://graph/page2''\<rparr>"

definition second_page :: response_data where
  "second_page =
     \<lparr>odata_value = [\<lparr>displayName = Some []\<rparr>, \<lparr>displayName = Some ''users''\<rparr>],
      odata_nextLink = None\<rparr>"

definition sample_directory :: "(nat, string) http_get" where
  "sample_directory n req =
     (if request_url req = ''https://graph/v1.0/me/memberOf'' then (Inr first_page, Suc n)
      else if request_url req = ''https://graph/page2'' then (Inr second_page, Suc n)
      else (Inl ''Request failed with status code 404'', Suc n))"

definition refusing_directory :: "(nat, string) http_get" where
  "refusing_directory n req =
     (if request_url req = ''https://graph/v1.0/me/memberOf'' then (Inr first_page, Suc n)
      else (Inl ''Request failed with status code 401'', Suc n))"

text \<open>
  Remove requests: one that is rejected with a plain text for every user, one that
  succeeds for \<open>alice\<close>, fails with an \<open>Error\<close> for \<open>Bob\<close> and never settles for
  anyone else, one that fails with an \<open>Error\<close> for \<open>Bob\<close> and succeeds for
  everyone else, and two that are rejected with a plain text for \<open>alice\<close>: beside
  a failure with an \<open>Error\<close> for \<open>Bob\<close>, and beside successes alone.
\<close>

definition rejecting_plainly :: "string \<Rightarrow> (jsval, jsval) promise" where
  "rejecting_plainly name = Rejected (NonError ''timeout'')"

definition mixed_outcomes :: "string \<Rightarrow> (jsval, jsval) promise" where
  "mixed_outcomes name =
     (if name = ''alice'' then Fulfilled (NonError ''[object Object]'')
      else if name = ''Bob'' then Rejected (ErrorInstance ''Error: user not found'')
      else Pending)"

definition second_fails :: "string \<Rightarrow> (jsval, jsval) promise" where
  "second_fails name =
     (if name = ''Bob'' then Rejected (ErrorInstance ''Error: user not found'')
      else Fulfilled (NonError ''[object Object]''))"

definition plain_beside_error :: "string \<Rightarrow> (jsval, jsval) promise" where
  "plain_beside_error name =
     (if name = ''alice'' then Rejected (NonError ''timeout'')
      else if name = ''Bob'' then Rejected (ErrorInstance ''Error: user not found'')
      else Fulfilled (NonError ''[object Object]''))"

definition plain_beside_success :: "string \<Rightarrow> (jsval, jsval) promise" where
  "plain_beside_success name =
     (if name = ''alice'' then Rejected (NonError ''timeout'')
      else Fulfilled (NonError ''[object Object]''))"

definition bob_selected :: view_state where
  "bob_selected = sample_view\<lparr>allSelected := False\<rparr>"

definition alice_bob_selected :: view_state where
  "alice_bob_selected = sample_view\<lparr>allSelected := False, selectedUsers := [alice, bob]\<rparr>"

definition all_three_selected :: view_state where
  "all_three_selected =
     sample_view\<lparr>allSelected := False, selectedUsers := [alice, bob, carol]\<rparr>"

section \<open>Properties\<close>

lemma Filter_matches_empty: "Filter_matches empty_Filter u"
  by (simp add: Filter_matches_def empty_Filter_def)

text \<open>
  C8. A filter with every predicate field unset is the identity for \<open>apply\<close>: the
  result has the elements of the argument, in their order.
\<close>

theorem empty_Filter_apply_identity: "Filter_apply empty_Filter L = L"
  by (simp add: Filter_apply_def Filter_matches_empty)


subsection \<open>Pagination\<close>

lemma map_nth_upt_slice:
  "b \<le> length xs \<Longrightarrow> map (\<lambda>i. xs ! i) [a ..< b] = drop a (take b xs)"
  by (rule nth_equalityI) auto

lemma Pagination_apply_drop_take:
  "Pagination_apply pg users =
     drop (currentPage pg * itemsPerPage pg)
       (take (min (length users) ((currentPage pg + 1) * itemsPerPage pg)) users)"
  by (simp add: Pagination_apply_def Let_def map_nth_upt_slice)

lemma Pagination_apply_take_drop:
  "Pagination_apply pg users =
     take (itemsPerPage pg) (drop (currentPage pg * itemsPerPage pg) users)"
  by (simp add: Pagination_apply_drop_take drop_take min_def)

lemma Pagination_apply_Nil: "Pagination_apply pg [] = []"
  by (simp add: Pagination_apply_take_drop)

lemma mset_take_subset: "mset (take n xs) \<subseteq># mset xs"
  by (metis append_take_drop_id mset_append mset_subset_eq_add_left)

lemma mset_drop_subset: "mset (drop n xs) \<subseteq># mset xs"
  by (metis append_take_drop_id mset_append mset_subset_eq_add_right)

lemma mset_Pagination_apply: "mset (Pagination_apply pg users) \<subseteq># mset users"
proof -
  have "mset (take (itemsPerPage pg) (drop (currentPage pg * itemsPerPage pg) users))
          \<subseteq># mset (drop (currentPage pg * itemsPerPage pg) users)"
    by (rule mset_take_subset)
  also have "\<dots> \<subseteq># mset users"
    by (rule mset_drop_subset)
  finally show ?thesis
    by (simp add: Pagination_apply_take_drop)
qed

text \<open>
  C7. For every sequence \<open>L\<close>, page index \<open>p\<close> and page size \<open>n\<close>, \<open>Pagination.apply\<close>
  returns the slice of \<open>L\<close> from \<open>p * n\<close> to \<open>min (length L) ((p + 1) * n)\<close>: it has
  that many elements, its element \<open>i\<close> is the element \<open>p * n + i\<close> of \<open>L\<close>, and it
  is the empty sequence whenever \<open>p * n \<ge> length L\<close>.
\<close>

theorem Pagination_apply_slice:
  fixes L :: "'a list" and n p :: nat
  defines "pg \<equiv> \<lparr>itemsPerPage = n, currentPage = p\<rparr>"
  shows "Pagination_apply pg L = drop (p * n) (take (min (length L) ((p + 1) * n)) L)
       \<and> length (Pagination_apply pg L) = min (length L) ((p + 1) * n) - p * n
       \<and> (\<forall>i < length (Pagination_apply pg L). Pagination_apply pg L ! i = L ! (p * n + i))
       \<and> (length L \<le> p * n \<longrightarrow> Pagination_apply pg L = [])"
proof -
  have slice: "Pagination_apply pg L = drop (p * n) (take (min (length L) ((p + 1) * n)) L)"
    by (simp add: Pagination_apply_drop_take pg_def)
  have len: "length (Pagination_apply pg L) = min (length L) ((p + 1) * n) - p * n"
    by (simp add: slice)
  have elems: "Pagination_apply pg L ! i = L ! (p * n + i)"
    if "i < length (Pagination_apply pg L)" for i
  proof -
    from that have "i < min (length L) (n + p * n) - p * n"
      by (simp add: len)
    then have "p * n + i < length L" and "p * n + i < n + p * n"
      by linarith+
    then show ?thesis
      by (simp add: slice)
  qed
  have empty: "Pagination_apply pg L = []" if "length L \<le> p * n"
    using that by (simp add: slice)
  from slice len elems empty show ?thesis
    by blast
qed

theorem Pagination_apply_slice_witness:
  "Pagination_apply \<lparr>itemsPerPage = 2, currentPage = 1\<rparr> [10, 20, 30 :: nat] = [30]
   \<and> Pagination_apply \<lparr>itemsPerPage = 2, currentPage = 2\<rparr> [10, 20, 30 :: nat] = []"
  using Pagination_apply_slice [of 2 1 "[10, 20, 30 :: nat]"]
    Pagination_apply_slice [of 2 2 "[10, 20, 30 :: nat]"]
  by simp


subsection \<open>Ordering\<close>

lemma stable_sort_by_Nil: "stable_sort_by k [] = []"
  by (cases k) (simp_all add: stable_sort_by_def)

lemma mset_stable_sort_by: "mset (stable_sort_by k users) = mset users"
  by (cases k) (simp_all add: stable_sort_by_def)

lemma Ordering_apply_Nil: "Ordering_apply ord [] = []"
  by (simp add: Ordering_apply_def stable_sort_by_Nil split: option.splits)

lemma mset_Ordering_apply: "mset (Ordering_apply ord users) = mset users"
  by (simp add: Ordering_apply_def mset_stable_sort_by split: option.splits)

subsection \<open>Selection\<close>

lemma getSelectedUsers_all:
  "allSelected vs \<Longrightarrow>
     getSelectedUsers vs =
       Pagination_apply (pagination vs)
         (Ordering_apply (ordering vs)
            (case filteredUsers vs of None \<Rightarrow> [] | Some users \<Rightarrow> users))"
  by (simp add: getSelectedUsers_def)

lemma getSelectedUsers_explicit: "\<not> allSelected vs \<Longrightarrow> getSelectedUsers vs = selectedUsers vs"
  by (simp add: getSelectedUsers_def)

lemma getSelectedUsers_all_subset:
  assumes "allSelected vs" and "filteredUsers vs = Some users"
  shows "mset (getSelectedUsers vs) \<subseteq># mset users"
proof -
  have "mset (getSelectedUsers vs)
          \<subseteq># mset (Ordering_apply (ordering vs) users)"
    using assms by (simp add: getSelectedUsers_all mset_Pagination_apply)
  then show ?thesis
    by (simp add: mset_Ordering_apply)
qed

text \<open>
  C1. With "all selected", \<open>getSelectedUsers\<close> is \<open>Pagination.apply\<close> of
  \<open>Ordering.apply\<close> of the filtered users of the state it is called in; otherwise it
  is the tracked selection as it stands, whatever the filter, the filtered users, the
  ordering and the page are. With "all selected" after the filter has been
  applied, every user returned is one of the filtered users (counted with
  multiplicity) and matches the filter; and the result is read from the filtered
  users of the state, never from its raw user list.
\<close>

theorem getSelectedUsers_resolves:
  "getSelectedUsers vs =
     (if allSelected vs then
        Pagination_apply (pagination vs)
          (Ordering_apply (ordering vs)
             (case filteredUsers vs of None \<Rightarrow> [] | Some users \<Rightarrow> users))
      else selectedUsers vs)
   \<and> (\<not> allSelected vs \<longrightarrow>
        getSelectedUsers
          (vs\<lparr>currentFilter := f, filteredUsers := fu, pagination := pg, ordering := ord,
              allUsers := raw\<rparr>) = selectedUsers vs)
   \<and> (allSelected vs \<longrightarrow>
        mset (getSelectedUsers (applyFilter vs)) \<subseteq># mset (Filter_apply (currentFilter vs) (allUsers vs))
        \<and> (\<forall>u \<in> set (getSelectedUsers (applyFilter vs)).
              u \<in> set (allUsers vs) \<and> Filter_matches (currentFilter vs) u))
   \<and> getSelectedUsers (vs\<lparr>allUsers := raw\<rparr>) = getSelectedUsers vs"
proof -
  have eq: "getSelectedUsers vs =
     (if allSelected vs then
        Pagination_apply (pagination vs)
          (Ordering_apply (ordering vs)
             (case filteredUsers vs of None \<Rightarrow> [] | Some users \<Rightarrow> users))
      else selectedUsers vs)"
    by (simp add: getSelectedUsers_def)
  have explicit: "getSelectedUsers
          (vs\<lparr>currentFilter := f, filteredUsers := fu, pagination := pg, ordering := ord,
              allUsers := raw\<rparr>) = selectedUsers vs"
    if "\<not> allSelected vs"
    using that by (simp add: getSelectedUsers_def)
  have sub: "mset (getSelectedUsers (applyFilter vs))
               \<subseteq># mset (Filter_apply (currentFilter vs) (allUsers vs))"
    if "allSelected vs"
    using that
    by (intro getSelectedUsers_all_subset) (simp_all add: applyFilter_def setFilteredUsers_def)
  have matches: "u \<in> set (allUsers vs) \<and> Filter_matches (currentFilter vs) u"
    if "allSelected vs" and "u \<in> set (getSelectedUsers (applyFilter vs))" for u
  proof -
    from sub [OF that(1)] that(2)
    have "u \<in> set (Filter_apply (currentFilter vs) (allUsers vs))"
      by (meson mset_subset_eqD set_mset_mset in_multiset_in_set)
    then show ?thesis
      by (simp add: Filter_apply_def)
  qed
  have raw: "getSelectedUsers (vs\<lparr>allUsers := raw\<rparr>) = getSelectedUsers vs"
    by (simp add: getSelectedUsers_def)
  from eq explicit sub matches raw show ?thesis
    by blast
qed


theorem getSelectedUsers_resolves_witness:
  "allSelected (paginationEffect sample_view)
   \<and> getSelectedUsers (applyFilter (paginationEffect sample_view)) = [carol, alice]
   \<and> Filter_matches (currentFilter sample_view) carol
   \<and> Filter_matches (currentFilter sample_view) alice
   \<and> \<not> allSelected (sample_view\<lparr>allSelected := False\<rparr>)
   \<and> getSelectedUsers (sample_view\<lparr>allSelected := False, filteredUsers := Some [alice, carol]\<rparr>)
       = [bob]
   \<and> \<not> Filter_matches (currentFilter sample_view) bob"
proof -
  let ?vs = "paginationEffect sample_view"
  let ?vs' = "sample_view\<lparr>allSelected := False\<rparr>"
  have on: "allSelected ?vs"
    by code_simp
  have page: "getSelectedUsers (applyFilter ?vs) = [carol, alice]"
    by code_simp
  from getSelectedUsers_resolves [where vs = ?vs] on
  have "\<forall>u \<in> set (getSelectedUsers (applyFilter ?vs)). Filter_matches (currentFilter ?vs) u"
    by blast
  then have "\<forall>u \<in> set [carol, alice]. Filter_matches (currentFilter ?vs) u"
    by (simp only: page)
  moreover have "currentFilter ?vs = currentFilter sample_view"
    by (simp add: paginationEffect_def)
  ultimately have matches: "Filter_matches (currentFilter sample_view) carol"
    "Filter_matches (currentFilter sample_view) alice"
    by simp_all
  have off: "\<not> allSelected ?vs'"
    by simp
  from getSelectedUsers_resolves
    [where vs = ?vs' and f = "currentFilter sample_view" and fu = "Some [alice, carol]"
      and pg = "pagination sample_view" and ord = "ordering sample_view"
      and raw = "allUsers sample_view"] off
  have "getSelectedUsers (sample_view\<lparr>allSelected := False, filteredUsers := Some [alice, carol]\<rparr>)
          = selectedUsers ?vs'"
    by simp
  also have "selectedUsers ?vs' = [bob]"
    by (simp add: sample_view_def)
  finally have explicit:
    "getSelectedUsers (sample_view\<lparr>allSelected := False, filteredUsers := Some [alice, carol]\<rparr>)
       = [bob]" .
  have nomatch: "\<not> Filter_matches (currentFilter sample_view) bob"
    by code_simp
  from on page matches off explicit nomatch show ?thesis
    by blast
qed

text \<open>
  C10. Before the first debounced filter computation, the filtered users are still
  \<open>null\<close>; with "all selected", \<open>getSelectedUsers\<close> then pages over the empty list and
  returns the empty sequence.
\<close>

theorem getSelectedUsers_null_filteredUsers:
  "filteredUsers vs = None \<Longrightarrow> allSelected vs \<Longrightarrow>
     getSelectedUsers vs = Pagination_apply (pagination vs) (Ordering_apply (ordering vs) [])
     \<and> getSelectedUsers vs = []"
  by (simp add: getSelectedUsers_def Ordering_apply_Nil Pagination_apply_Nil)

theorem getSelectedUsers_null_filteredUsers_witness:
  "filteredUsers sample_view = None \<and> allSelected sample_view \<and> getSelectedUsers sample_view = []"
proof -
  have unset: "filteredUsers sample_view = None" and on: "allSelected sample_view"
    by (simp_all add: sample_view_def)
  from getSelectedUsers_null_filteredUsers [OF unset on]
  have "getSelectedUsers sample_view = []"
    by (rule conjunct2)
  with unset on show ?thesis
    by simp
qed

subsection \<open>The page reset\<close>

text \<open>
  C4. Whenever the filtered user list changes, the state moves to a pagination with
  \<open>currentPage = 0\<close> and the \<open>itemsPerPage\<close> it had; this holds from every state, so
  in every state reached through such a change, and in particular when the change
  comes from the debounced filter computation.
\<close>

theorem filteredUsersChange_resets_page:
  "currentPage (pagination (filteredUsersChange users vs)) = 0
   \<and> itemsPerPage (pagination (filteredUsersChange users vs)) = itemsPerPage (pagination vs)
   \<and> filteredUsers (filteredUsersChange users vs) = Some users
   \<and> currentPage (pagination (paginationEffect (applyFilter vs))) = 0
   \<and> itemsPerPage (pagination (paginationEffect (applyFilter vs))) = itemsPerPage (pagination vs)"
  by (simp add: filteredUsersChange_def paginationEffect_def setFilteredUsers_def
      applyFilter_def new_Pagination_def)


subsection \<open>The directory group lookup\<close>

lemma fetchPages_page_chain:
  "page_chain axios_get config url w pages w' \<Longrightarrow>
     fetchPages axios_get config url responseData w =
       Some (Inr (responseData @ map odata_value pages), w')"
proof (induction arbitrary: responseData rule: page_chain.induct)
  case (last_page w url data w')
  then show ?case
    by (subst fetchPages.simps) simp
next
  case (next_page w url data w' nextLink pages w'')
  then show ?case
    by (subst fetchPages.simps) simp
qed

lemma fetchPages_failing_chain:
  "failing_chain axios_get config url w pages error w' \<Longrightarrow>
     fetchPages axios_get config url responseData w = Some (Inl error, w')"
proof (induction arbitrary: responseData rule: failing_chain.induct)
  case (rejected w url error w')
  then show ?case
    by (subst fetchPages.simps) simp
next
  case (rejected_later w url data w' nextLink pages error w'')
  then show ?case
    by (subst fetchPages.simps) simp
qed

lemma fetchPages_SomeD:
  assumes "fetchPages axios_get config url responseData w = Some y"
  shows "(\<exists>pages. page_chain axios_get config url w pages (snd y)
            \<and> fst y = Inr (responseData @ map odata_value pages))
       \<or> (\<exists>pages error. failing_chain axios_get config url w pages error (snd y)
            \<and> fst y = Inl error)"
proof (rule fetchPages.raw_induct
    [where P = "\<lambda>axios_get config url responseData w y.
       (\<exists>pages. page_chain axios_get config url w pages (snd y)
            \<and> fst y = Inr (responseData @ map odata_value pages))
       \<or> (\<exists>pages error. failing_chain axios_get config url w pages error (snd y)
            \<and> fst y = Inl error)", OF _ assms], goal_cases)
  case (1 fetch axios_get config requestUrl responseData w y)
  show ?case
  proof (cases "axios_get w (get_request config requestUrl)")
    case (Pair response v)
    show ?thesis
    proof (cases response)
      case (Inl error)
      with Pair 1(2) have "y = (Inl error, v)"
        by simp
      with Pair Inl show ?thesis
        by (auto intro: failing_chain.rejected)
    next
      case (Inr data)
      show ?thesis
      proof (cases "odata_nextLink data")
        case None
        with Pair Inr 1(2) have "y = (Inr (responseData @ [odata_value data]), v)"
          by simp
        with Pair Inr None show ?thesis
          by (auto intro!: exI [of _ "[data]"] page_chain.last_page)
      next
        case (Some nextLink)
        with Pair Inr 1(2)
        have "fetch axios_get config nextLink (responseData @ [odata_value data]) v = Some y"
          by simp
        from 1(1) [OF this]
        show ?thesis
        proof
          assume "\<exists>pages. page_chain axios_get config nextLink v pages (snd y) \<and>
            fst y = Inr ((responseData @ [odata_value data]) @ map odata_value pages)"
          then obtain pages where "page_chain axios_get config nextLink v pages (snd y)"
            and "fst y = Inr (responseData @ map odata_value (data # pages))"
            by auto
          with Pair Inr Some show ?thesis
            by (auto intro: page_chain.next_page)
        next
          assume "\<exists>pages error. failing_chain axios_get config nextLink v pages error (snd y) \<and>
            fst y = Inl error"
          then obtain pages error
            where "failing_chain axios_get config nextLink v pages error (snd y)"
            and "fst y = Inl error"
            by auto
          with Pair Inr Some show ?thesis
            by (auto intro: failing_chain.rejected_later)
        qed
      qed
    qed
  qed
qed


lemma pushDisplayNames_append:
  "pushDisplayNames groupList dataBlock =
     groupList @ map (\<lambda>g. the (displayName g))
       (filter (\<lambda>g. displayName g \<noteq> None \<and> displayName g \<noteq> Some []) dataBlock)"
  by (induction dataBlock arbitrary: groupList) (auto split: option.splits)

lemma collectGroups_concat:
  "collectGroups groupList (map odata_value pages) =
     groupList @ concat (map spec_displayNames pages)"
  by (induction pages arbitrary: groupList)
    (simp_all add: pushDisplayNames_append spec_displayNames_def)

lemma logging_apply:
  "axios_get w req = (response, w') \<Longrightarrow>
     logging axios_get (w, log) req = (response, (w', log @ [req]))"
  by (simp add: logging_def)

lemma page_chain_logging:
  "page_chain axios_get config url w pages w' \<Longrightarrow>
     page_chain (logging axios_get) config url (w, log) pages
       (w', log @ map (get_request config) (requested_urls url pages))"
proof (induction arbitrary: log rule: page_chain.induct)
  case (last_page w url data w')
  then show ?case
    by (auto simp: requested_urls_def logging_apply intro!: page_chain.last_page)
next
  case (next_page w url data w' nextLink pages w'')
  from next_page.IH [of "log @ [get_request config url]"] next_page.hyps(1,2)
  show ?case
    by (auto simp: requested_urls_def logging_apply intro!: page_chain.next_page)
qed

lemma failing_chain_logging:
  "failing_chain axios_get config url w pages error w' \<Longrightarrow>
     failing_chain (logging axios_get) config url (w, log) pages error
       (w', log @ map (get_request config) (requested_urls url pages))"
proof (induction arbitrary: log rule: failing_chain.induct)
  case (rejected w url error w')
  then show ?case
    by (auto simp: requested_urls_def logging_apply intro!: failing_chain.rejected)
next
  case (rejected_later w url data w' nextLink pages error w'')
  from rejected_later.IH [of "log @ [get_request config url]"] rejected_later.hyps(1,2)
  show ?case
    by (auto simp: requested_urls_def logging_apply intro!: failing_chain.rejected_later)
qed

lemma page_chain_links:
  "page_chain axios_get config url w pages w' \<Longrightarrow>
     pages \<noteq> [] \<and> odata_nextLink (last pages) = None
     \<and> (\<forall>page \<in> set (butlast pages). odata_nextLink page \<noteq> None)"
  by (induction rule: page_chain.induct) auto

lemma page_chain_requested_urls:
  "page_chain axios_get config url w pages w' \<Longrightarrow>
     requested_urls url pages = url # map (\<lambda>page. the (odata_nextLink page)) (butlast pages)"
proof (induction rule: page_chain.induct)
  case (last_page w url data w')
  then show ?case
    by (simp add: requested_urls_def)
next
  case (next_page w url data w' nextLink pages w'')
  from next_page.hyps(3) have "pages \<noteq> []"
    by (simp add: page_chain_links)
  with next_page.IH next_page.hyps(2) show ?case
    by (simp add: requested_urls_def)
qed

lemma failing_chain_requested_urls:
  "failing_chain axios_get config url w pages error w' \<Longrightarrow>
     requested_urls url pages = url # map (\<lambda>page. the (odata_nextLink page)) pages"
  by (induction rule: failing_chain.induct) (auto simp: requested_urls_def)

lemma getUserGroupList_page_chain:
  assumes "page_chain axios_get config (msGraphAPI config) w pages w'"
  shows "getUserGroupList axios_get username' config w =
     Some (Inr (concat (map spec_displayNames pages)), w')"
  using fetchPages_page_chain [OF assms, of "[]"]
  by (simp add: getUserGroupList_def collectGroups_concat)

lemma getUserGroupList_failing_chain:
  assumes "failing_chain axios_get config (msGraphAPI config) w pages error w'"
  shows "getUserGroupList axios_get username' config w = Some (Inl error, w')"
  using fetchPages_failing_chain [OF assms, of "[]"]
  by (simp add: getUserGroupList_def)

lemma getUserGroupList_SomeD:
  assumes "getUserGroupList axios_get username' config w = Some (result, w')"
  shows "(\<exists>pages. page_chain axios_get config (msGraphAPI config) w pages w'
            \<and> result = Inr (concat (map spec_displayNames pages)))
       \<or> (\<exists>pages error. failing_chain axios_get config (msGraphAPI config) w pages error w'
            \<and> result = Inl error)"
proof -
  from assms obtain y where fetched: "fetchPages axios_get config (msGraphAPI config) [] w = Some y"
    by (auto simp: getUserGroupList_def split: option.splits)
  from fetchPages_SomeD [OF fetched] show ?thesis
  proof
    assume "\<exists>pages. page_chain axios_get config (msGraphAPI config) w pages (snd y) \<and>
      fst y = Inr ([] @ map odata_value pages)"
    then obtain pages where chain: "page_chain axios_get config (msGraphAPI config) w pages (snd y)"
      by blast
    from getUserGroupList_page_chain [OF chain, of username'] assms chain show ?thesis
      by auto
  next
    assume "\<exists>pages error. failing_chain axios_get config (msGraphAPI config) w pages error (snd y) \<and>
      fst y = Inl error"
    then obtain pages error
      where chain: "failing_chain axios_get config (msGraphAPI config) w pages error (snd y)"
      by blast
    from getUserGroupList_failing_chain [OF chain, of username'] assms chain show ?thesis
      by auto
  qed
qed

text \<open>
  C5. For every user name and configuration, when the requests that start at the
  configured URL and follow each next link succeed with \<open>pages\<close>, the last of which
  is the first response without a next link, the lookup returns the display names
  of the group records of all pages, concatenated in the order of the fetches,
  without the records whose display name is absent or falsy. The requests it has
  issued are, in order, the configured URL and then the next link of each page but
  the last, each one request. And it returns a list in that case only.
\<close>

theorem getUserGroupList_returns:
  "(page_chain axios_get config (msGraphAPI config) w pages w' \<longrightarrow>
      getUserGroupList axios_get username' config w =
        Some (Inr (concat (map spec_displayNames pages)), w')
      \<and> getUserGroupList (logging axios_get) username' config (w, []) =
          Some (Inr (concat (map spec_displayNames pages)),
                (w', map (get_request config)
                       (msGraphAPI config
                          # map (\<lambda>page. the (odata_nextLink page)) (butlast pages)))))
   \<and> (getUserGroupList axios_get username' config w = Some (Inr names, w'') \<longrightarrow>
        (\<exists>fetched. page_chain axios_get config (msGraphAPI config) w fetched w''
           \<and> names = concat (map spec_displayNames fetched)))"
proof (intro conjI impI)
  assume chain: "page_chain axios_get config (msGraphAPI config) w pages w'"
  from getUserGroupList_page_chain [OF chain]
  show "getUserGroupList axios_get username' config w =
      Some (Inr (concat (map spec_displayNames pages)), w')" .
  from getUserGroupList_page_chain [OF page_chain_logging [OF chain, of "[]"]]
    page_chain_requested_urls [OF chain]
  show "getUserGroupList (logging axios_get) username' config (w, []) =
      Some (Inr (concat (map spec_displayNames pages)),
            (w', map (get_request config)
                   (msGraphAPI config
                      # map (\<lambda>page. the (odata_nextLink page)) (butlast pages))))"
    by simp
next
  assume "getUserGroupList axios_get username' config w = Some (Inr names, w'')"
  from getUserGroupList_SomeD [OF this]
  show "\<exists>fetched. page_chain axios_get config (msGraphAPI config) w fetched w''
      \<and> names = concat (map spec_displayNames fetched)"
    by auto
qed

lemma sample_directory_chain:
  "page_chain sample_directory sample_config (msGraphAPI sample_config) 0
     [first_page, second_page] 2"
proof -
  have "page_chain sample_directory sample_config ''https://graph/page2'' 1 [second_page] 2"
    by (rule page_chain.last_page)
      (simp_all add: sample_directory_def get_request_def second_page_def)
  then have "page_chain sample_directory sample_config ''https://graph/v1.0/me/memberOf'' 0
      [first_page, second_page] 2"
    by (rule page_chain.next_page [rotated 2])
      (simp_all add: sample_directory_def get_request_def first_page_def)
  then show ?thesis
    by (simp add: sample_config_def initConfig_def)
qed

theorem getUserGroupList_returns_witness:
  "getUserGroupList sample_directory ''alice'' sample_config 0 = Some (Inr [''admins'', ''users''], 2)
   \<and> getUserGroupList (logging sample_directory) ''alice'' sample_config (0, []) =
       Some (Inr [''admins'', ''users''],
             (2, [get_request sample_config ''https://graph/v1.0/me/memberOf'',
                  get_request sample_config ''https://graph/page2'']))
   \<and> (\<exists>fetched. page_chain sample_directory sample_config (msGraphAPI sample_config) 0 fetched 2
         \<and> [''admins'', ''users''] = concat (map spec_displayNames fetched))"
proof -
  note returns = getUserGroupList_returns
    [where axios_get = sample_directory and config = sample_config and w = 0 and w' = 2
      and pages = "[first_page, second_page]" and username' = "''alice''"
      and names = "[''admins'', ''users'']" and w'' = 2]
  from returns sample_directory_chain
  have run: "getUserGroupList sample_directory ''alice'' sample_config 0 =
      Some (Inr [''admins'', ''users''], 2)"
    and logged: "getUserGroupList (logging sample_directory) ''alice'' sample_config (0, []) =
       Some (Inr [''admins'', ''users''],
             (2, [get_request sample_config ''https://graph/v1.0/me/memberOf'',
                  get_request sample_config ''https://graph/page2'']))"
    by (simp_all add: spec_displayNames_def first_page_def second_page_def sample_config_def
        initConfig_def)
  from returns run
  have "\<exists>fetched. page_chain sample_directory sample_config (msGraphAPI sample_config) 0 fetched 2
      \<and> [''admins'', ''users''] = concat (map spec_displayNames fetched)"
    by blast
  with run logged show ?thesis
    by blast
qed

text \<open>
  C6. When a page fetch of the lookup fails, after any number of pages fetched with
  success, the lookup throws the value that the request was rejected with, as it
  is. The failed request is the last one it issues: none is repeated and none
  follows. And whatever the lookup throws is the value that a page fetch was
  rejected with.
\<close>

theorem getUserGroupList_throws:
  fixes axios_get :: "('w, 'e) http_get"
  shows
  "(failing_chain axios_get config (msGraphAPI config) w pages error w' \<longrightarrow>
      getUserGroupList axios_get username' config w = Some (Inl error, w')
      \<and> getUserGroupList (logging axios_get) username' config (w, []) =
          Some (Inl error,
                (w', map (get_request config)
                       (msGraphAPI config # map (\<lambda>page. the (odata_nextLink page)) pages))))
   \<and> (getUserGroupList axios_get username' config w = Some (Inl thrown, w'') \<longrightarrow>
        (\<exists>fetched. failing_chain axios_get config (msGraphAPI config) w fetched thrown w''))"
proof (intro conjI impI)
  assume chain: "failing_chain axios_get config (msGraphAPI config) w pages error w'"
  from getUserGroupList_failing_chain [OF chain]
  show "getUserGroupList axios_get username' config w = Some (Inl error, w')" .
  from getUserGroupList_failing_chain [OF failing_chain_logging [OF chain, of "[]"]]
    failing_chain_requested_urls [OF chain]
  show "getUserGroupList (logging axios_get) username' config (w, []) =
      Some (Inl error,
            (w', map (get_request config)
                   (msGraphAPI config # map (\<lambda>page. the (odata_nextLink page)) pages)))"
    by simp
next
  assume "getUserGroupList axios_get username' config w = Some (Inl thrown, w'')"
  from getUserGroupList_SomeD [OF this]
  show "\<exists>fetched. failing_chain axios_get config (msGraphAPI config) w fetched thrown w''"
    by auto
qed

lemma refusing_directory_chain:
  "failing_chain refusing_directory sample_config (msGraphAPI sample_config) 0
     [first_page] ''Request failed with status code 401'' 2"
proof -
  have "failing_chain refusing_directory sample_config ''https://graph/page2'' 1 []
      ''Request failed with status code 401'' 2"
    by (rule failing_chain.rejected) (simp add: refusing_directory_def get_request_def)
  then have "failing_chain refusing_directory sample_config ''https://graph/v1.0/me/memberOf'' 0
      [first_page] ''Request failed with status code 401'' 2"
    by (rule failing_chain.rejected_later [rotated 2])
      (simp_all add: refusing_directory_def get_request_def first_page_def)
  then show ?thesis
    by (simp add: sample_config_def initConfig_def)
qed

theorem getUserGroupList_throws_witness:
  "getUserGroupList refusing_directory ''alice'' sample_config 0 =
     Some (Inl ''Request failed with status code 401'', 2)
   \<and> getUserGroupList (logging refusing_directory) ''alice'' sample_config (0, []) =
       Some (Inl ''Request failed with status code 401'',
             (2, [get_request sample_config ''https://graph/v1.0/me/memberOf'',
                  get_request sample_config ''https://graph/page2'']))
   \<and> (\<exists>fetched. failing_chain refusing_directory sample_config (msGraphAPI sample_config) 0
         fetched ''Request failed with status code 401'' 2)"
proof -
  note throws = getUserGroupList_throws
    [where axios_get = refusing_directory and config = sample_config and w = 0 and w' = 2
      and pages = "[first_page]" and error = "''Request failed with status code 401''"
      and username' = "''alice''" and thrown = "''Request failed with status code 401''"
      and w'' = 2]
  from throws refusing_directory_chain
  have run: "getUserGroupList refusing_directory ''alice'' sample_config 0 =
      Some (Inl ''Request failed with status code 401'', 2)"
    and logged: "getUserGroupList (logging refusing_directory) ''alice'' sample_config (0, []) =
       Some (Inl ''Request failed with status code 401'',
             (2, [get_request sample_config ''https://graph/v1.0/me/memberOf'',
                  get_request sample_config ''https://graph/page2'']))"
    by (simp_all add: first_page_def sample_config_def initConfig_def)
  from throws run
  have "\<exists>fetched. failing_chain refusing_directory sample_config (msGraphAPI sample_config) 0
      fetched ''Request failed with status code 401'' 2"
    by blast
  with run logged show ?thesis
    by blast
qed


subsection \<open>Batch removal\<close>

lemma promise_catch_not_Rejected: "promise_catch h p \<noteq> Rejected reason"
  by (cases p) (simp_all add: promise_catch_def)

lemma Promise_all_not_Rejected:
  "(\<And>p reason. p \<in> set ps \<Longrightarrow> p \<noteq> Rejected reason) \<Longrightarrow> Promise_all ps \<noteq> Rejected reason"
proof (induction ps)
  case Nil
  then show ?case by simp
next
  case (Cons p ps)
  then show ?case
    by (cases p) (auto split: promise.splits)
qed

lemma Promise_all_map_Fulfilled: "Promise_all (map Fulfilled vs) = Fulfilled vs"
  by (induction vs) simp_all

lemma Promise_all_FulfilledD: "Promise_all ps = Fulfilled vs \<Longrightarrow> ps = map Fulfilled vs"
proof (induction ps arbitrary: vs)
  case Nil
  then show ?case by simp
next
  case (Cons p ps)
  then show ?case
    by (cases p) (auto split: promise.splits)
qed

lemma Promise_all_Fulfilled_iff:
  "Promise_all ps = Fulfilled vs \<longleftrightarrow> ps = map Fulfilled vs"
  using Promise_all_FulfilledD Promise_all_map_Fulfilled by blast

lemma promise_catch_id_Fulfilled_iff:
  "promise_catch (\<lambda>err. err) p = Fulfilled v \<longleftrightarrow> collected p = Some v"
  by (cases p) (simp_all add: promise_catch_def)

lemma removeRequestPromises_Fulfilled_iff:
  "Promise_all (removeRequestPromises removeUserRequest selected) = Fulfilled results \<longleftrightarrow>
     map (\<lambda>user. collected (removeUserRequest (username user))) selected = map Some results"
proof -
  have "removeRequestPromises removeUserRequest selected = map Fulfilled results \<longleftrightarrow>
     map (\<lambda>user. collected (removeUserRequest (username user))) selected = map Some results"
  proof (induction selected arbitrary: results)
    case Nil
    then show ?case
      by (auto simp: removeRequestPromises_def)
  next
    case (Cons user selected)
    then show ?case
      by (cases results)
        (auto simp: removeRequestPromises_def promise_catch_id_Fulfilled_iff)
  qed
  then show ?thesis
    by (simp add: Promise_all_Fulfilled_iff)
qed

lemma removeRequestPromises_not_Rejected:
  "Promise_all (removeRequestPromises removeUserRequest selected) \<noteq> Rejected reason"
  by (rule Promise_all_not_Rejected)
    (auto simp: removeRequestPromises_def promise_catch_not_Rejected)

lemma all_settled_results:
  assumes "\<forall>user \<in> set selected. removeUserRequest (username user) \<noteq> Pending"
  shows "Promise_all (removeRequestPromises removeUserRequest selected) =
     Fulfilled (map (\<lambda>user. the (collected (removeUserRequest (username user)))) selected)"
proof -
  have "collected (removeUserRequest (username user)) =
      Some (the (collected (removeUserRequest (username user))))"
    if "user \<in> set selected" for user
    using assms that by (cases "removeUserRequest (username user)") auto
  then show ?thesis
    by (simp add: removeRequestPromises_Fulfilled_iff comp_def)
qed

lemma some_pending_no_results:
  assumes "user \<in> set selected" and "removeUserRequest (username user) = Pending"
  shows "Promise_all (removeRequestPromises removeUserRequest selected) \<noteq> Fulfilled results"
proof
  assume "Promise_all (removeRequestPromises removeUserRequest selected) = Fulfilled results"
  then have "map (\<lambda>user. collected (removeUserRequest (username user))) selected = map Some results"
    by (simp add: removeRequestPromises_Fulfilled_iff)
  then have "collected (removeUserRequest (username user)) \<in> set (map Some results)"
    using assms(1) by (metis (no_types, lifting) image_eqI list.set_map)
  with assms(2) show False
    by auto
qed

lemma foldl_lines:
  "foldl (\<lambda>message error. message @ [CHR 0x0A] @ String_of error) message errors =
     message @ concat (map (\<lambda>text. CHR 0x0A # text) (map String_of errors))"
  by (induction errors arbitrary: message) simp_all

lemma removeSummary_spec:
  "removeSummary selected results =
     spec_summary (length selected) (map String_of (filter instanceof_Error results))"
  unfolding removeSummary_def foldl_lines
  by (cases "length selected = 1") (simp_all add: spec_summary_def Let_def)


lemma removeRequests_confirmed:
  "removeRequests (removeUsers removeUserRequest True dismissed vs) =
     map username (getSelectedUsers vs)"
  by (simp add: removeUsers_def Let_def split: promise.splits)

lemma summaryMessage_confirmed:
  "summaryMessage (removeUsers removeUserRequest True dismissed vs) = Some message \<longleftrightarrow>
     (\<exists>results. (Promise_all (removeRequestPromises removeUserRequest (getSelectedUsers vs))
                   :: (jsval list, jsval) promise) = Fulfilled results
        \<and> message = removeSummary (getSelectedUsers vs) results)"
  by (auto simp: removeUsers_def Let_def split: promise.splits)

lemma summaryMessage_all_settled:
  assumes "\<forall>user \<in> set (getSelectedUsers vs). removeUserRequest (username user) \<noteq> Pending"
  shows "summaryMessage (removeUsers removeUserRequest True dismissed vs) =
     Some (removeSummary (getSelectedUsers vs)
       (map (\<lambda>user. the (collected (removeUserRequest (username user)))) (getSelectedUsers vs)))"
  by (simp add: summaryMessage_confirmed all_settled_results [OF assms])

lemma refreshes_all_settled:
  assumes "\<forall>user \<in> set (getSelectedUsers vs). removeUserRequest (username user) \<noteq> Pending"
  shows "refreshes (removeUsers removeUserRequest True dismissed vs) = (if dismissed then 1 else 0)"
  by (simp add: removeUsers_def Let_def all_settled_results [OF assms])

lemma summaryMessage_some_pending:
  assumes "user \<in> set (getSelectedUsers vs)" and "removeUserRequest (username user) = Pending"
  shows "summaryMessage (removeUsers removeUserRequest True dismissed vs) = None"
proof (cases "summaryMessage (removeUsers removeUserRequest True dismissed vs)")
  case None
  then show ?thesis .
next
  case (Some message)
  then obtain results where
    "(Promise_all (removeRequestPromises removeUserRequest (getSelectedUsers vs))
        :: (jsval list, jsval) promise) = Fulfilled results"
    by (auto simp: summaryMessage_confirmed)
  with some_pending_no_results
    [where removeUserRequest = removeUserRequest and selected = "getSelectedUsers vs", OF assms]
  show ?thesis
    by blast
qed

text \<open>
  C2. For a confirmed removal of the \<open>n\<close> selected users: one remove request is
  issued for each of them, in the order of the selection, whatever becomes of any
  request, even when none ever settles; no outcome of a request rejects the joint
  promise, so a failure cuts nothing short; the joint promise is fulfilled exactly
  with the \<open>n\<close> outcomes, value or reason, each at the place of its request; and
  the summary is produced exactly when every one of the \<open>n\<close> requests has settled.
\<close>

theorem removeUsers_fan_out_fan_in:
  fixes removeUserRequest :: "string \<Rightarrow> (jsval, jsval) promise"
  defines "promises \<equiv> \<lambda>vs. (Promise_all (removeRequestPromises removeUserRequest (getSelectedUsers vs))
                   :: (jsval list, jsval) promise)"
  shows "removeRequests (removeUsers removeUserRequest True dismissed vs) =
           map username (getSelectedUsers vs)
       \<and> promises vs \<noteq> Rejected reason
       \<and> (promises vs = Fulfilled results \<longleftrightarrow>
            map (\<lambda>user. collected (removeUserRequest (username user))) (getSelectedUsers vs) =
              map Some results)
       \<and> (summaryMessage (removeUsers removeUserRequest True dismissed vs) \<noteq> None \<longleftrightarrow>
            (\<forall>user \<in> set (getSelectedUsers vs). removeUserRequest (username user) \<noteq> Pending))"
proof -
  have settled: "summaryMessage (removeUsers removeUserRequest True dismissed vs) \<noteq> None \<longleftrightarrow>
      (\<forall>user \<in> set (getSelectedUsers vs). removeUserRequest (username user) \<noteq> Pending)"
    using summaryMessage_all_settled [of vs removeUserRequest dismissed]
      summaryMessage_some_pending [of _ vs removeUserRequest dismissed]
    by auto
  show ?thesis
    unfolding promises_def
    by (intro conjI removeRequests_confirmed removeRequestPromises_not_Rejected
        removeRequestPromises_Fulfilled_iff settled)
qed

theorem removeUsers_fan_out_fan_in_witness:
  "removeRequests (removeUsers mixed_outcomes True True all_three_selected) =
     [''alice'', ''Bob'', ''carol'']
   \<and> mixed_outcomes (username carol) = Pending
   \<and> summaryMessage (removeUsers mixed_outcomes True True all_three_selected) = None
   \<and> getSelectedUsers alice_bob_selected = [alice, bob]
   \<and> mixed_outcomes (username alice) \<noteq> Pending
   \<and> mixed_outcomes (username bob) \<noteq> Pending
   \<and> summaryMessage (removeUsers mixed_outcomes True True alice_bob_selected) \<noteq> None"
proof -
  have three: "getSelectedUsers all_three_selected = [alice, bob, carol]"
    and two: "getSelectedUsers alice_bob_selected = [alice, bob]"
    by (simp_all add: all_three_selected_def alice_bob_selected_def getSelectedUsers_def
        sample_view_def)
  have names: "username alice = ''alice''" "username bob = ''Bob''" "username carol = ''carol''"
    by (simp_all add: alice_def bob_def carol_def)
  have pending: "mixed_outcomes (username carol) = Pending"
    by (simp add: names mixed_outcomes_def)
  have settled: "\<forall>user \<in> set (getSelectedUsers alice_bob_selected).
      mixed_outcomes (username user) \<noteq> Pending"
    by (simp add: two names mixed_outcomes_def)
  note fan = removeUsers_fan_out_fan_in [where removeUserRequest = mixed_outcomes
      and dismissed = True]
  from fan [where vs = all_three_selected]
  have requests: "removeRequests (removeUsers mixed_outcomes True True all_three_selected) =
      [''alice'', ''Bob'', ''carol'']"
    by (simp add: three names)
  from fan [where vs = all_three_selected] pending
  have none: "summaryMessage (removeUsers mixed_outcomes True True all_three_selected) = None"
    by (auto simp: three)
  from fan [where vs = alice_bob_selected] settled
  have some: "summaryMessage (removeUsers mixed_outcomes True True alice_bob_selected) \<noteq> None"
    by blast
  from settled have "mixed_outcomes (username alice) \<noteq> Pending"
    and "mixed_outcomes (username bob) \<noteq> Pending"
    by (simp_all add: two)
  with requests pending none two some show ?thesis
    by blast
qed

lemma filter_instanceof_Error_rejections:
  assumes "\<forall>user \<in> set selected.
      (\<forall>reason. removeUserRequest (username user) = Rejected reason \<longrightarrow> instanceof_Error reason)
      \<and> (\<forall>v. removeUserRequest (username user) = Fulfilled v \<longrightarrow> \<not> instanceof_Error v)
      \<and> removeUserRequest (username user) \<noteq> Pending"
  shows "filter instanceof_Error
           (map (\<lambda>user. the (collected (removeUserRequest (username user)))) selected) =
         failed_requests removeUserRequest selected"
  using assms
proof (induction selected)
  case Nil
  then show ?case
    by (simp add: failed_requests_def)
next
  case (Cons user selected)
  then have "filter instanceof_Error
           (map (\<lambda>user. the (collected (removeUserRequest (username user)))) selected) =
         failed_requests removeUserRequest selected"
    by simp
  with Cons.prems show ?case
    by (cases "removeUserRequest (username user)") (simp_all add: failed_requests_def)
qed

text \<open>
  C3, as amended. After all remove requests of a confirmed removal have settled, the
  summary is \<open>Remove {user|users} successfully.\<close> when none of the collected results
  is an instance of \<open>Error\<close>, and \<open>Remove {user|users} with N failed.\<close> followed by
  a new line and \<open>String(error)\<close> for each such result otherwise, where \<open>N\<close> is
  their number and \<open>user\<close> is singular when exactly one user is selected; \<open>N\<close>
  counts the failed requests whenever every rejection is with an instance of
  \<open>Error\<close> and no fulfilment is. The user list is refreshed once when the summary is
  dismissed, whatever the number of failures.
\<close>

theorem removeUsers_summary:
  assumes "\<forall>user \<in> set (getSelectedUsers vs). removeUserRequest (username user) \<noteq> Pending"
  defines "results \<equiv>
    map (\<lambda>user. the (collected (removeUserRequest (username user)))) (getSelectedUsers vs)"
  shows "summaryMessage (removeUsers removeUserRequest True dismissed vs) =
           Some (spec_summary (length (getSelectedUsers vs))
                   (map String_of (filter instanceof_Error results)))
       \<and> refreshes (removeUsers removeUserRequest True dismissed vs) = (if dismissed then 1 else 0)
       \<and> ((\<forall>user \<in> set (getSelectedUsers vs).
              (\<forall>reason. removeUserRequest (username user) = Rejected reason
                 \<longrightarrow> instanceof_Error reason)
              \<and> (\<forall>v. removeUserRequest (username user) = Fulfilled v \<longrightarrow> \<not> instanceof_Error v))
            \<longrightarrow> filter instanceof_Error results =
                  failed_requests removeUserRequest (getSelectedUsers vs))"
proof -
  have message: "summaryMessage (removeUsers removeUserRequest True dismissed vs) =
           Some (spec_summary (length (getSelectedUsers vs))
                   (map String_of (filter instanceof_Error results)))"
    using summaryMessage_all_settled [OF assms(1)]
    by (simp add: removeSummary_spec results_def)
  have refresh: "refreshes (removeUsers removeUserRequest True dismissed vs) =
      (if dismissed then 1 else 0)"
    by (rule refreshes_all_settled [OF assms(1)])
  have count: "filter instanceof_Error results =
      failed_requests removeUserRequest (getSelectedUsers vs)"
    if "\<forall>user \<in> set (getSelectedUsers vs).
          (\<forall>reason. removeUserRequest (username user) = Rejected reason
             \<longrightarrow> instanceof_Error reason)
          \<and> (\<forall>v. removeUserRequest (username user) = Fulfilled v \<longrightarrow> \<not> instanceof_Error v)"
    unfolding results_def
    using that assms(1) by (intro filter_instanceof_Error_rejections) blast
  from message refresh count show ?thesis
    by blast
qed

theorem removeUsers_summary_witness:
  "getSelectedUsers all_three_selected = [alice, bob, carol]
   \<and> second_fails (username alice) = Fulfilled (NonError ''[object Object]'')
   \<and> second_fails (username bob) = Rejected (ErrorInstance ''Error: user not found'')
   \<and> second_fails (username carol) = Fulfilled (NonError ''[object Object]'')
   \<and> summaryMessage (removeUsers second_fails True True all_three_selected) =
       Some (''Remove users with 1 failed.'' @ [CHR 0x0A] @ ''Error: user not found'')
   \<and> refreshes (removeUsers second_fails True True all_three_selected) = 1
   \<and> failed_requests second_fails (getSelectedUsers all_three_selected) =
       [ErrorInstance ''Error: user not found'']"
proof -
  have three: "getSelectedUsers all_three_selected = [alice, bob, carol]"
    by (simp add: all_three_selected_def getSelectedUsers_def sample_view_def)
  have names: "username alice = ''alice''" "username bob = ''Bob''" "username carol = ''carol''"
    by (simp_all add: alice_def bob_def carol_def)
  have outcomes: "second_fails (username alice) = Fulfilled (NonError ''[object Object]'')"
    "second_fails (username bob) = Rejected (ErrorInstance ''Error: user not found'')"
    "second_fails (username carol) = Fulfilled (NonError ''[object Object]'')"
    by (simp_all add: names second_fails_def)
  have settled: "\<forall>user \<in> set (getSelectedUsers all_three_selected).
      second_fails (username user) \<noteq> Pending"
    by (simp add: three outcomes)
  have errors_only: "\<forall>user \<in> set (getSelectedUsers all_three_selected).
      (\<forall>reason. second_fails (username user) = Rejected reason \<longrightarrow> instanceof_Error reason)
      \<and> (\<forall>v. second_fails (username user) = Fulfilled v \<longrightarrow> \<not> instanceof_Error v)"
    by (auto simp: three outcomes)
  have results: "filter instanceof_Error
      (map (\<lambda>user. the (collected (second_fails (username user)))) [alice, bob, carol]) =
      [ErrorInstance ''Error: user not found'']"
    by (simp add: outcomes)
  have rendered: "spec_summary (length [alice, bob, carol])
      (map String_of [ErrorInstance ''Error: user not found'']) =
      ''Remove users with 1 failed.'' @ [CHR 0x0A] @ ''Error: user not found''"
    by (simp add: spec_summary_def toString_nat.simps)
  note summary = removeUsers_summary [OF settled, of True]
  from summary
  have "summaryMessage (removeUsers second_fails True True all_three_selected) =
      Some (spec_summary (length (getSelectedUsers all_three_selected))
        (map String_of (filter instanceof_Error
           (map (\<lambda>user. the (collected (second_fails (username user))))
              (getSelectedUsers all_three_selected)))))"
    and refresh: "refreshes (removeUsers second_fails True True all_three_selected) = 1"
    by simp_all
  then have message: "summaryMessage (removeUsers second_fails True True all_three_selected) =
       Some (''Remove users with 1 failed.'' @ [CHR 0x0A] @ ''Error: user not found'')"
    by (simp only: three results rendered)
  from summary errors_only
  have "filter instanceof_Error
      (map (\<lambda>user. the (collected (second_fails (username user))))
         (getSelectedUsers all_three_selected)) =
      failed_requests second_fails (getSelectedUsers all_three_selected)"
    by blast
  then have failed: "failed_requests second_fails (getSelectedUsers all_three_selected) =
      [ErrorInstance ''Error: user not found'']"
    by (simp only: three results)
  from three outcomes message refresh failed show ?thesis
    by blast
qed

text \<open>
  The claim as it was stated fails for a rejection with a value that is not an
  \<open>Error\<close>: one user selected, the request rejected with a plain text, and the
  summary reads \<open>Remove user successfully.\<close>, not \<open>Remove user with 1 failed.\<close>
\<close>

theorem removeUsers_summary_counterexample:
  "getSelectedUsers bob_selected = [bob]
   \<and> failed_requests rejecting_plainly (getSelectedUsers bob_selected) = [NonError ''timeout'']
   \<and> summaryMessage (removeUsers rejecting_plainly True True bob_selected) =
       Some ''Remove user successfully.''
   \<and> summaryMessage (removeUsers rejecting_plainly True True bob_selected) \<noteq>
       Some (spec_summary (length (getSelectedUsers bob_selected))
               (map String_of
                  (failed_requests rejecting_plainly (getSelectedUsers bob_selected))))"
proof -
  have one: "getSelectedUsers bob_selected = [bob]"
    by (simp add: bob_selected_def getSelectedUsers_def sample_view_def)
  have failed: "failed_requests rejecting_plainly [bob] = [NonError ''timeout'']"
    by (simp add: failed_requests_def rejecting_plainly_def)
  have message: "summaryMessage (removeUsers rejecting_plainly True True bob_selected) =
       Some ''Remove user successfully.''"
    by (simp add: removeUsers_def one Let_def removeRequestPromises_def promise_catch_def
        rejecting_plainly_def removeSummary_def)
  have differs: "spec_summary (length (getSelectedUsers bob_selected))
      (map String_of (failed_requests rejecting_plainly (getSelectedUsers bob_selected)))
      \<noteq> ''Remove user successfully.''"
    by (simp add: failed one spec_summary_def)
  from one failed message differs show ?thesis
    by (simp del: String_of.simps)
qed


lemma as_fulfilled_catch:
  "promise_catch (\<lambda>err. err) (as_fulfilled p) = promise_catch (\<lambda>err. err) p"
  by (cases p rule: as_fulfilled.cases) (simp_all add: promise_catch_def)

lemma removeRequestPromises_as_fulfilled:
  "removeRequestPromises (\<lambda>name. as_fulfilled (removeUserRequest name)) selected =
     removeRequestPromises removeUserRequest selected"
  by (simp add: removeRequestPromises_def as_fulfilled_catch)

lemma filter_Error_rejections:
  assumes "\<forall>user \<in> set selected.
      (\<forall>v. removeUserRequest (username user) = Fulfilled v \<longrightarrow> \<not> instanceof_Error v)
      \<and> removeUserRequest (username user) \<noteq> Pending"
  shows "filter instanceof_Error
           (map (\<lambda>user. the (collected (removeUserRequest (username user)))) selected) =
         filter instanceof_Error (failed_requests removeUserRequest selected)"
  using assms
proof (induction selected)
  case Nil
  then show ?case
    by (simp add: failed_requests_def)
next
  case (Cons user selected)
  then have "filter instanceof_Error
           (map (\<lambda>user. the (collected (removeUserRequest (username user)))) selected) =
         filter instanceof_Error (failed_requests removeUserRequest selected)"
    by simp
  with Cons.prems show ?case
    by (cases "removeUserRequest (username user)") (simp_all add: failed_requests_def)
qed

lemma some_pending_Pending:
  assumes "user \<in> set selected" and "removeUserRequest (username user) = Pending"
  shows "(Promise_all (removeRequestPromises removeUserRequest selected)
            :: (jsval list, jsval) promise) = Pending"
proof (cases "Promise_all (removeRequestPromises removeUserRequest selected)
    :: (jsval list, jsval) promise")
  case (Fulfilled results)
  with some_pending_no_results
    [where removeUserRequest = removeUserRequest and selected = selected, OF assms]
  show ?thesis
    by blast
next
  case (Rejected reason)
  then show ?thesis
    by (simp add: removeRequestPromises_not_Rejected)
next
  case Pending
  then show ?thesis .
qed

lemma as_success_Pending: "as_success ok p = Pending \<longleftrightarrow> p = Pending"
  by (cases "(ok, p)" rule: as_success.cases) simp_all

lemma as_success_counted:
  "\<not> instanceof_Error ok \<Longrightarrow> p \<noteq> Pending \<Longrightarrow>
     instanceof_Error (the (collected (as_success ok p))) = instanceof_Error (the (collected p))
     \<and> (instanceof_Error (the (collected p)) \<longrightarrow>
          the (collected (as_success ok p)) = the (collected p))"
  by (cases "(ok, p)" rule: as_success.cases) simp_all

lemma as_success_results:
  assumes "\<not> instanceof_Error ok"
    and "\<forall>user \<in> set selected. removeUserRequest (username user) \<noteq> Pending"
  shows "filter instanceof_Error
           (map (\<lambda>user. the (collected (as_success ok (removeUserRequest (username user)))))
              selected) =
         filter instanceof_Error
           (map (\<lambda>user. the (collected (removeUserRequest (username user)))) selected)"
  using assms(2)
proof (induction selected)
  case Nil
  then show ?case by simp
next
  case (Cons user selected)
  from Cons.prems have "removeUserRequest (username user) \<noteq> Pending"
    by simp
  from as_success_counted [OF assms(1) this] Cons show ?case
    by auto
qed

lemma removeUsers_as_success:
  assumes "\<not> instanceof_Error ok"
  shows "removeUsers (\<lambda>name. as_success ok (removeUserRequest name)) confirmed dismissed vs =
     removeUsers removeUserRequest confirmed dismissed vs"
proof (cases "\<forall>user \<in> set (getSelectedUsers vs). removeUserRequest (username user) \<noteq> Pending")
  case True
  then have settled': "\<forall>user \<in> set (getSelectedUsers vs).
      (\<lambda>name. as_success ok (removeUserRequest name)) (username user) \<noteq> Pending"
    by (simp add: as_success_Pending)
  have "removeSummary (getSelectedUsers vs)
      (map (\<lambda>user. the (collected (as_success ok (removeUserRequest (username user)))))
         (getSelectedUsers vs)) =
    removeSummary (getSelectedUsers vs)
      (map (\<lambda>user. the (collected (removeUserRequest (username user)))) (getSelectedUsers vs))"
    by (simp only: removeSummary_spec as_success_results [OF assms True])
  then show ?thesis
    by (simp add: removeUsers_def Let_def all_settled_results [OF True]
        all_settled_results [OF settled'])
next
  case False
  then obtain user where "user \<in> set (getSelectedUsers vs)"
    and "removeUserRequest (username user) = Pending"
    by blast
  then have "(Promise_all (removeRequestPromises removeUserRequest (getSelectedUsers vs))
        :: (jsval list, jsval) promise) = Pending"
    and "(Promise_all (removeRequestPromises (\<lambda>name. as_success ok (removeUserRequest name))
        (getSelectedUsers vs)) :: (jsval list, jsval) promise) = Pending"
    by (simp_all add: some_pending_Pending)
  then show ?thesis
    by (simp add: removeUsers_def Let_def)
qed

text \<open>
  C9. A remove request that rejects with a value that is not an instance of
  \<open>Error\<close> is counted as a success. Once all requests of a confirmed removal have
  settled, the failures that the summary counts and prints are the collected
  results that are instances of \<open>Error\<close>; when no fulfilment is with one, these are
  the rejection values that are instances of \<open>Error\<close>, in order, and no other
  rejection value; so when no rejection is with an \<open>Error\<close> the summary reads
  \<open>Remove {user|users} successfully.\<close>, whatever the number of rejections. Reading
  every rejection with another value as the fulfilment of a request that went well
  changes nothing of what \<open>removeUsers\<close> does.
\<close>

theorem non_Error_rejection_counts_as_success:
  fixes removeUserRequest :: "string \<Rightarrow> (jsval, jsval) promise" and vs :: view_state
  defines "results \<equiv>
    map (\<lambda>user. the (collected (removeUserRequest (username user)))) (getSelectedUsers vs)"
  shows
  "((\<forall>user \<in> set (getSelectedUsers vs). removeUserRequest (username user) \<noteq> Pending) \<longrightarrow>
      summaryMessage (removeUsers removeUserRequest True dismissed vs) =
        Some (spec_summary (length (getSelectedUsers vs))
                (map String_of (filter instanceof_Error results)))
      \<and> ((\<forall>user \<in> set (getSelectedUsers vs).
             \<forall>v. removeUserRequest (username user) = Fulfilled v \<longrightarrow> \<not> instanceof_Error v) \<longrightarrow>
           filter instanceof_Error results =
             filter instanceof_Error (failed_requests removeUserRequest (getSelectedUsers vs))
           \<and> ((\<forall>reason \<in> set (failed_requests removeUserRequest (getSelectedUsers vs)).
                  \<not> instanceof_Error reason) \<longrightarrow>
                summaryMessage (removeUsers removeUserRequest True dismissed vs) =
                  Some (''Remove ''
                        @ (if length (getSelectedUsers vs) = 1 then ''user'' else ''users'')
                        @ '' successfully.''))))
   \<and> (\<not> instanceof_Error ok \<longrightarrow>
        removeUsers (\<lambda>name. as_success ok (removeUserRequest name)) confirmed dismissed vs =
          removeUsers removeUserRequest confirmed dismissed vs)
   \<and> removeUsers (\<lambda>name. as_fulfilled (removeUserRequest name)) confirmed dismissed vs =
       removeUsers removeUserRequest confirmed dismissed vs"
proof -
  let ?selected = "getSelectedUsers vs"
  have message: "summaryMessage (removeUsers removeUserRequest True dismissed vs) =
      Some (spec_summary (length ?selected) (map String_of (filter instanceof_Error results)))"
    if "\<forall>user \<in> set ?selected. removeUserRequest (username user) \<noteq> Pending"
    using summaryMessage_all_settled [OF that]
    by (simp add: removeSummary_spec results_def)
  have counted: "filter instanceof_Error results =
      filter instanceof_Error (failed_requests removeUserRequest ?selected)"
    if "\<forall>user \<in> set ?selected. removeUserRequest (username user) \<noteq> Pending"
      and "\<forall>user \<in> set ?selected.
        \<forall>v. removeUserRequest (username user) = Fulfilled v \<longrightarrow> \<not> instanceof_Error v"
    unfolding results_def
    using that by (intro filter_Error_rejections) blast
  have success: "summaryMessage (removeUsers removeUserRequest True dismissed vs) =
      Some (''Remove '' @ (if length ?selected = 1 then ''user'' else ''users'')
            @ '' successfully.'')"
    if settled: "\<forall>user \<in> set ?selected. removeUserRequest (username user) \<noteq> Pending"
      and fulfilled: "\<forall>user \<in> set ?selected.
        \<forall>v. removeUserRequest (username user) = Fulfilled v \<longrightarrow> \<not> instanceof_Error v"
      and plain: "\<forall>reason \<in> set (failed_requests removeUserRequest ?selected).
        \<not> instanceof_Error reason"
  proof -
    from plain have "filter instanceof_Error (failed_requests removeUserRequest ?selected) = []"
      by (simp add: filter_empty_conv)
    with counted [OF settled fulfilled] have "filter instanceof_Error results = []"
      by simp
    with message [OF settled] show ?thesis
      by (simp add: spec_summary_def)
  qed
  have as_ok: "removeUsers (\<lambda>name. as_success ok (removeUserRequest name)) confirmed dismissed vs =
      removeUsers removeUserRequest confirmed dismissed vs"
    if "\<not> instanceof_Error ok"
    by (rule removeUsers_as_success [OF that])
  have same: "removeUsers (\<lambda>name. as_fulfilled (removeUserRequest name)) confirmed dismissed vs =
     removeUsers removeUserRequest confirmed dismissed vs"
    by (simp only: removeUsers_def Let_def removeRequestPromises_as_fulfilled)
  from message counted success as_ok same show ?thesis
    by blast
qed

theorem non_Error_rejection_counts_as_success_witness:
  "getSelectedUsers all_three_selected = [alice, bob, carol]
   \<and> failed_requests plain_beside_error (getSelectedUsers all_three_selected) =
       [NonError ''timeout'', ErrorInstance ''Error: user not found'']
   \<and> summaryMessage (removeUsers plain_beside_error True True all_three_selected) =
       Some (''Remove users with 1 failed.'' @ [CHR 0x0A] @ ''Error: user not found'')
   \<and> failed_requests plain_beside_success (getSelectedUsers all_three_selected) =
       [NonError ''timeout'']
   \<and> summaryMessage (removeUsers plain_beside_success True True all_three_selected) =
       Some ''Remove users successfully.''
   \<and> removeUsers (\<lambda>name. as_success (NonError ''[object Object]'') (plain_beside_error name))
         True True all_three_selected =
       removeUsers plain_beside_error True True all_three_selected"
proof -
  have three: "getSelectedUsers all_three_selected = [alice, bob, carol]"
    by (simp add: all_three_selected_def getSelectedUsers_def sample_view_def)
  have names: "username alice = ''alice''" "username bob = ''Bob''" "username carol = ''carol''"
    by (simp_all add: alice_def bob_def carol_def)
  have mixed: "plain_beside_error (username alice) = Rejected (NonError ''timeout'')"
    "plain_beside_error (username bob) = Rejected (ErrorInstance ''Error: user not found'')"
    "plain_beside_error (username carol) = Fulfilled (NonError ''[object Object]'')"
    by (simp_all add: names plain_beside_error_def)
  have plain: "plain_beside_success (username alice) = Rejected (NonError ''timeout'')"
    "plain_beside_success (username bob) = Fulfilled (NonError ''[object Object]'')"
    "plain_beside_success (username carol) = Fulfilled (NonError ''[object Object]'')"
    by (simp_all add: names plain_beside_success_def)
  have failed_mixed: "failed_requests plain_beside_error (getSelectedUsers all_three_selected) =
      [NonError ''timeout'', ErrorInstance ''Error: user not found'']"
    by (simp add: three failed_requests_def mixed)
  have failed_plain: "failed_requests plain_beside_success (getSelectedUsers all_three_selected) =
      [NonError ''timeout'']"
    by (simp add: three failed_requests_def plain)
  have settled_mixed: "\<forall>user \<in> set (getSelectedUsers all_three_selected).
      plain_beside_error (username user) \<noteq> Pending"
    by (simp add: three mixed)
  have settled_plain: "\<forall>user \<in> set (getSelectedUsers all_three_selected).
      plain_beside_success (username user) \<noteq> Pending"
    by (simp add: three plain)
  have fulfilled_plain: "\<forall>user \<in> set (getSelectedUsers all_three_selected).
      \<forall>v. plain_beside_success (username user) = Fulfilled v \<longrightarrow> \<not> instanceof_Error v"
    by (auto simp: three plain)
  have no_Error: "\<forall>reason \<in> set (failed_requests plain_beside_success
      (getSelectedUsers all_three_selected)). \<not> instanceof_Error reason"
    by (simp add: failed_plain)
  have results: "filter instanceof_Error
      (map (\<lambda>user. the (collected (plain_beside_error (username user)))) [alice, bob, carol]) =
      [ErrorInstance ''Error: user not found'']"
    by (simp add: mixed)
  have rendered: "spec_summary (length [alice, bob, carol])
      (map String_of [ErrorInstance ''Error: user not found'']) =
      ''Remove users with 1 failed.'' @ [CHR 0x0A] @ ''Error: user not found''"
    by (simp add: spec_summary_def toString_nat.simps)
  note counts = non_Error_rejection_counts_as_success
    [where vs = all_three_selected and dismissed = True and confirmed = True
      and ok = "NonError ''[object Object]''"]
  from counts [where removeUserRequest = plain_beside_error] settled_mixed
  have "summaryMessage (removeUsers plain_beside_error True True all_three_selected) =
      Some (spec_summary (length (getSelectedUsers all_three_selected))
        (map String_of (filter instanceof_Error
           (map (\<lambda>user. the (collected (plain_beside_error (username user))))
              (getSelectedUsers all_three_selected)))))"
    by blast
  then have message_mixed:
    "summaryMessage (removeUsers plain_beside_error True True all_three_selected) =
       Some (''Remove users with 1 failed.'' @ [CHR 0x0A] @ ''Error: user not found'')"
    by (simp only: three results rendered)
  from counts [where removeUserRequest = plain_beside_success]
    settled_plain fulfilled_plain no_Error
  have "summaryMessage (removeUsers plain_beside_success True True all_three_selected) =
      Some (''Remove ''
            @ (if length (getSelectedUsers all_three_selected) = 1 then ''user'' else ''users'')
            @ '' successfully.'')"
    by blast
  then have message_plain:
    "summaryMessage (removeUsers plain_beside_success True True all_three_selected) =
       Some ''Remove users successfully.''"
    by (simp add: three)
  have "\<not> instanceof_Error (NonError ''[object Object]'')"
    by simp
  with counts [where removeUserRequest = plain_beside_error]
  have read_as_success:
    "removeUsers (\<lambda>name. as_success (NonError ''[object Object]'') (plain_beside_error name))
         True True all_three_selected =
       removeUsers plain_beside_error True True all_three_selected"
    by blast
  from three failed_mixed message_mixed failed_plain message_plain read_as_success
  show ?thesis
    by blast
qed

end
